theory Spec2Isabelle
  imports Main "HOL-Library.Word" "HOL-Library.Sublist"
begin

section \<open>Quota accountant (server/index.js)\<close>

text \<open>
  Byte counts are JavaScript numbers. The model keeps the finite ones as unbounded
  integers (Buffer lengths and stat sizes are integers) and the three non-finite values
  as constructors of their own, since the code tests \<^verbatim>\<open>Number.isFinite\<close>.
  The \<^verbatim>\<open>updatedAt\<close> stamp of usage.json is not modelled: nothing reads it.
\<close>

datatype jsnumber = Finite int | NaN | Infinity | NegInfinity


text \<open>A directory entry as \<^verbatim>\<open>readdir(..., {withFileTypes: true})\<close> and
  \<^verbatim>\<open>stat\<close> see it: a file with its size, a directory with its entries, or anything
  else (neither file nor directory, or a file whose stat fails), which the walk skips.\<close>

datatype fsnode = File nat | Dir "(string \<times> fsnode) list" | Other

record usage =
  uploadsBytes :: int
  generatedBytes :: int

text \<open>The part of one user's directory the accountant reads and writes:
  meta.json (\<^verbatim>\<open>isAdmin\<close>), quota.json (\<^verbatim>\<open>Number(quota?.galleryBytes)\<close>, NaN when
  the file or the field is missing), usage.json (None when missing or unparseable) and
  the two metered directories (None when the directory does not exist).\<close>

record user_state =
  meta_isAdmin :: bool
  quota_galleryBytes :: jsnumber
  usage_json :: "usage option"
  uploads_dir :: "(string \<times> fsnode) list option"
  generated_dir :: "(string \<times> fsnode) list option"



definition writeUsage :: "user_state \<Rightarrow> usage \<Rightarrow> user_state" where
  "writeUsage st u = st\<lparr>usage_json := Some u\<rparr>"

fun nodeBytes :: "fsnode \<Rightarrow> int"
  and entriesBytes :: "(string \<times> fsnode) list \<Rightarrow> int" where
  "nodeBytes (File n) = int n"
| "nodeBytes (Dir es) = entriesBytes es"
| "nodeBytes Other = 0"
| "entriesBytes [] = 0"
| "entriesBytes (e # es) = nodeBytes (snd e) + entriesBytes es"

definition statDirBytesRecursive :: "(string \<times> fsnode) list option \<Rightarrow> int" where
  "statDirBytesRecursive d = (case d of None \<Rightarrow> 0 | Some es \<Rightarrow> entriesBytes es)"

definition recomputeUsage :: "user_state \<Rightarrow> usage \<times> user_state" where
  "recomputeUsage st =
     (let u = \<lparr>uploadsBytes = statDirBytesRecursive (uploads_dir st),
                generatedBytes = statDirBytesRecursive (generated_dir st)\<rparr>
      in (u, writeUsage st u))"










definition diskUsed :: "user_state \<Rightarrow> int" where
  "diskUsed st = statDirBytesRecursive (uploads_dir st) + statDirBytesRecursive (generated_dir st)"









section \<open>JSON values and the JavaScript operations the handlers apply to them\<close>

text \<open>
  A parsed JSON value. Strings are lists of 8-bit characters (a JavaScript string is
  taken as its UTF-8 bytes), numbers are integers (ids, timestamps and byte counts; below
  \<open>10^21\<close> JavaScript prints them in plain decimal), an object is the list of its
  entries in the order \<^verbatim>\<open>Object.keys\<close> yields them. \<open>None\<close> of type
  \<open>json option\<close> stands for \<^verbatim>\<open>undefined\<close>.
\<close>

datatype json = JNull | JBool bool | JNum int | JStr string | JArr "json list" | JObj "(string \<times> json) list"

text \<open>Reading a property of a value other than null; of the names the server reads
  (\<^verbatim>\<open>id\<close>, \<^verbatim>\<open>u\<close>, \<^verbatim>\<open>data\<close>, ...) only objects have any.\<close>

fun js_get :: "json \<Rightarrow> string \<Rightarrow> json option" where
  "js_get (JObj kvs) k = map_of kvs k"
| "js_get _ k = None"


fun truthy :: "json \<Rightarrow> bool" where
  "truthy JNull = False"
| "truthy (JBool b) = b"
| "truthy (JNum n) = (n \<noteq> 0)"
| "truthy (JStr s) = (s \<noteq> [])"
| "truthy (JArr _) = True"
| "truthy (JObj _) = True"

definition truthy_opt :: "json option \<Rightarrow> bool" where
  "truthy_opt v = (case v of None \<Rightarrow> False | Some x \<Rightarrow> truthy x)"





fun intercalate :: "string \<Rightarrow> string list \<Rightarrow> string" where
  "intercalate sep [] = []"
| "intercalate sep [x] = x"
| "intercalate sep (x # y # ys) = x @ sep @ intercalate sep (y # ys)"



text \<open>\<^verbatim>\<open>s.split(c)\<close> for a one-character separator.\<close>

fun split_acc :: "char \<Rightarrow> string \<Rightarrow> string \<Rightarrow> string list" where
  "split_acc c acc [] = [rev acc]"
| "split_acc c acc (x # xs) =
     (if x = c then rev acc # split_acc c [] xs else split_acc c (x # acc) xs)"

definition split_on :: "char \<Rightarrow> string \<Rightarrow> string list" where
  "split_on c s = split_acc c [] s"

definition nth_opt :: "'a list \<Rightarrow> nat \<Rightarrow> 'a option" where
  "nth_opt xs i = (if i < length xs then Some (xs ! i) else None)"

text \<open>\<^verbatim>\<open>pathname.split('/').filter(Boolean)\<close>\<close>

definition path_parts :: "string \<Rightarrow> string list" where
  "path_parts pathname = filter (\<lambda>s. s \<noteq> []) (split_on CHR ''/'' pathname)"


section \<open>Server state and responses\<close>

type_synonym byte = "8 word"

text \<open>
  What can be thrown up to a handler's outer \<^verbatim>\<open>catch\<close>: an error of the runtime
  (reading a property of null, calling \<^verbatim>\<open>path.join\<close> on a value that is no string,
  ...), the three rejections of \<^verbatim>\<open>fetchUrlBuffer\<close> (a response status outside
  2xx, a body over the byte cap, a failed request), a failed file copy, a URI that does
  not decode, and the quota error of \<^verbatim>\<open>assertGalleryHasSpace\<close> with the headroom and
  the quota its message shows. \<open>status_of\<close> is \<^verbatim>\<open>e.statusCode || 500\<close>.
\<close>

datatype js_error = TypeError | SyntaxError | RangeError

datatype thrown =
    Js js_error
  | HttpStatusError nat
  | DownloadTooLarge
  | RequestError
  | CopyError
  | URIError
  | QuotaError int int


text \<open>
  What a request handler answers: \<open>Json\<close> and \<open>Text\<close> are \<^verbatim>\<open>sendJson\<close> and
  \<^verbatim>\<open>sendText\<close> with their status, \<open>ServeFile\<close> is the file route going on to
  stat and stream the path, and \<open>Caught e\<close> is the answer of the handler's outer
  \<^verbatim>\<open>catch\<close>: the error's message under the status \<open>status_of e\<close>.
\<close>

datatype response = Json nat json | Text nat string | ServeFile string | Caught thrown

text \<open>
  A file written by a favorite save: what it was made from (the data URL, the remote URL
  or the file URI handed to the materializer), its absolute path and its bytes.
\<close>

datatype origin = FromDataUrl string | FromRemoteUrl string | FromFileUri string

record stored_file =
  source :: origin
  abs_path_of :: string
  bytes_of :: "byte list"






section \<open>DELETE /api/favorites/<type>/<id>\<close>



definition auth_alice :: json where
  "auth_alice = JObj [(''u'', JStr ''alice''), (''a'', JBool False), (''exp'', JNum 1700000000000)]"


section \<open>Paths and the /files/ route\<close>

text \<open>\<^verbatim>\<open>path.join\<close> and \<^verbatim>\<open>path.normalize\<close> of Node, POSIX flavour: \<open>res\<close> is the
  stack of segments kept so far, the last one first.\<close>

fun normalizeString :: "bool \<Rightarrow> string list \<Rightarrow> string list \<Rightarrow> string list" where
  "normalizeString allowAboveRoot res [] = rev res"
| "normalizeString allowAboveRoot res (seg # segs) =
     (if seg = [] \<or> seg = ''.'' then normalizeString allowAboveRoot res segs
      else if seg = ''..'' then
        (case res of
           last_seg # earlier \<Rightarrow>
             if last_seg \<noteq> ''..'' then normalizeString allowAboveRoot earlier segs
             else if allowAboveRoot then normalizeString allowAboveRoot (''..'' # res) segs
             else normalizeString allowAboveRoot res segs
         | [] \<Rightarrow>
             if allowAboveRoot then normalizeString allowAboveRoot [''..''] segs
             else normalizeString allowAboveRoot [] segs)
      else normalizeString allowAboveRoot (seg # res) segs)"

definition path_normalize :: "string \<Rightarrow> string" where
  "path_normalize p =
     (if p = [] then ''.''
      else
        let isAbsolute = (hd p = CHR ''/'');
            trailingSeparator = (last p = CHR ''/'');
            body = intercalate ''/'' (normalizeString (\<not> isAbsolute) [] (split_on CHR ''/'' p))
        in if body = [] then (if isAbsolute then ''/'' else if trailingSeparator then ''./'' else ''.'')
           else (if isAbsolute then ''/'' else []) @ body @ (if trailingSeparator then ''/'' else []))"

definition path_join :: "string list \<Rightarrow> string" where
  "path_join args =
     (let joined = intercalate ''/'' (filter (\<lambda>a. a \<noteq> []) args)
      in if joined = [] then ''.'' else path_normalize joined)"

text \<open>\<^verbatim>\<open>s.startsWith(p)\<close>\<close>

definition startsWith :: "string \<Rightarrow> string \<Rightarrow> bool" where
  "startsWith s p = (take (length p) s = p)"

definition ensureUserOwnsPath :: "json \<Rightarrow> string option \<Rightarrow> bool" where
  "ensureUserOwnsPath auth username =
     (js_get auth ''u'' = map_option JStr username \<or> js_get auth ''a'' = Some (JBool True))"

text \<open>The route from the decoded \<^verbatim>\<open>pathname\<close> on, up to the point where the file is
  looked up. An undefined user name reaching \<^verbatim>\<open>path.join\<close> makes it throw.\<close>

definition files_route :: "string \<Rightarrow> json option \<Rightarrow> string \<Rightarrow> response" where
  "files_route USERS_ROOT auth pathname =
     (let parts = path_parts pathname;
          username = nth_opt parts 1;
          rel = intercalate ''/'' (drop 2 parts)
      in case auth of
           None \<Rightarrow> Text 401 ''Unauthorized''
         | Some a \<Rightarrow>
             if \<not> ensureUserOwnsPath a username then Text 403 ''Forbidden''
             else case username of
               None \<Rightarrow> Caught (Js TypeError)
             | Some u \<Rightarrow>
                 let userRoot = path_join [USERS_ROOT, u];
                     filePath = path_join [userRoot, rel]
                 in if \<not> startsWith filePath userRoot then Text 400 ''Bad path''
                    else ServeFile filePath)"


text \<open>An absolute, normalised path is \<open>abs_path\<close> of segments that are plain.\<close>

definition plain_segment :: "string \<Rightarrow> bool" where
  "plain_segment s = (s \<noteq> [] \<and> s \<noteq> ''.'' \<and> s \<noteq> ''..'' \<and> CHR ''/'' \<notin> set s)"

definition abs_path :: "string list \<Rightarrow> string" where
  "abs_path segs = concat (map (\<lambda>s. CHR ''/'' # s) segs)"

definition USERS_ROOT_example :: string where
  "USERS_ROOT_example = ''/srv/banana/data/users''"

definition auth_bob :: json where
  "auth_bob = JObj [(''u'', JStr ''bob''), (''a'', JBool False), (''exp'', JNum 1700000000000)]"


section \<open>Base64 as Node's Buffer does it\<close>

text \<open>
  \<^verbatim>\<open>buf.toString('base64')\<close> is the padded encoding over the standard alphabet.
  \<^verbatim>\<open>Buffer.from(s, 'base64')\<close> is lenient: it accepts the URL-safe characters as
  well, skips every other character outside the alphabet, stops at the first \<^verbatim>\<open>=\<close>,
  and turns what is left over after the last group of four sextets into as many whole
  bytes as it holds.
\<close>

definition b64_alphabet :: string where
  "b64_alphabet = ''ABCDEFGHIJKLMNOPQRSTUVWXYZabcdefghijklmnopqrstuvwxyz0123456789+/''"

definition b64_char :: "nat \<Rightarrow> char" where
  "b64_char n = b64_alphabet ! n"

fun index_of :: "'a \<Rightarrow> 'a list \<Rightarrow> nat option" where
  "index_of x [] = None"
| "index_of x (y # ys) = (if x = y then Some 0 else map_option Suc (index_of x ys))"

definition unbase64 :: "char \<Rightarrow> nat option" where
  "unbase64 c =
     (if c = CHR ''-'' then Some 62 else if c = CHR ''_'' then Some 63 else index_of c b64_alphabet)"

fun encode_sextets :: "byte list \<Rightarrow> nat list" where
  "encode_sextets (x # y # z # rest) =
     [unat x div 4, (unat x mod 4) * 16 + unat y div 16, (unat y mod 16) * 4 + unat z div 64, unat z mod 64]
       @ encode_sextets rest"
| "encode_sextets [x, y] = [unat x div 4, (unat x mod 4) * 16 + unat y div 16, (unat y mod 16) * 4]"
| "encode_sextets [x] = [unat x div 4, (unat x mod 4) * 16]"
| "encode_sextets [] = []"

definition b64_padding :: "nat \<Rightarrow> string" where
  "b64_padding n = replicate ((3 - n mod 3) mod 3) CHR ''=''"

definition b64_encode :: "byte list \<Rightarrow> string" where
  "b64_encode buf = map b64_char (encode_sextets buf) @ b64_padding (length buf)"

fun decode_sextets :: "nat list \<Rightarrow> byte list" where
  "decode_sextets (a # b # c # d # rest) =
     [of_nat (a * 4 + b div 16), of_nat ((b mod 16) * 16 + c div 4), of_nat ((c mod 4) * 64 + d)]
       @ decode_sextets rest"
| "decode_sextets [a, b, c] = [of_nat (a * 4 + b div 16), of_nat ((b mod 16) * 16 + c div 4)]"
| "decode_sextets [a, b] = [of_nat (a * 4 + b div 16)]"
| "decode_sextets _ = []"

definition b64_decode :: "string \<Rightarrow> byte list" where
  "b64_decode s = decode_sextets (List.map_filter unbase64 (takeWhile (\<lambda>c. c \<noteq> CHR ''='') s))"

section \<open>Token auth\<close>

text \<open>
  \<^verbatim>\<open>Buffer.from(s, 'utf8')\<close> and \<^verbatim>\<open>buf.toString('utf8')\<close>: strings are taken as their
  UTF-8 bytes, so both keep the bytes (the replacement of ill-formed sequences by U+FFFD
  is outside the model).
\<close>

definition base64urlEncode :: "byte list \<Rightarrow> string" where
  "base64urlEncode buf =
     map (\<lambda>c. if c = CHR ''+'' then CHR ''-'' else if c = CHR ''/'' then CHR ''_'' else c)
       (filter (\<lambda>c. c \<noteq> CHR ''='') (b64_encode buf))"

definition base64urlDecodeToBuffer :: "string \<Rightarrow> byte list" where
  "base64urlDecodeToBuffer str =
     (let s = map (\<lambda>c. if c = CHR ''-'' then CHR ''+'' else if c = CHR ''_'' then CHR ''/'' else c) str;
          pad = (if length s mod 4 = 0 then [] else replicate (4 - length s mod 4) CHR ''='')
      in b64_decode (s @ pad))"

definition utf8_encode :: "string \<Rightarrow> byte list" where
  "utf8_encode s = map (\<lambda>c. of_nat (of_char c)) s"

definition utf8_decode :: "byte list \<Rightarrow> string" where
  "utf8_decode buf = map (\<lambda>b. char_of (unat b)) buf"

text \<open>
  The library functions the token code calls are parameters: HMAC-SHA256
  (\<^verbatim>\<open>crypto.createHmac('sha256', key).update(msg).digest()\<close>), \<^verbatim>\<open>JSON.parse\<close> (None
  when it throws SyntaxError), \<^verbatim>\<open>JSON.stringify\<close>, and the comparison
  \<^verbatim>\<open>n > v\<close> for a \<open>v\<close> that is a string, an array or an object, which goes
  through JavaScript's conversion to a number.
\<close>

record jslib =
  hmac_sha256 :: "string \<Rightarrow> string \<Rightarrow> byte list"
  JSON_parse :: "string \<Rightarrow> json option"
  JSON_stringify :: "json \<Rightarrow> string"
  gt_coerced :: "int \<Rightarrow> json \<Rightarrow> bool"

definition signToken :: "jslib \<Rightarrow> string \<Rightarrow> string \<Rightarrow> string" where
  "signToken lib secret payloadB64 = base64urlEncode (hmac_sha256 lib secret payloadB64)"

definition createToken :: "jslib \<Rightarrow> string \<Rightarrow> json \<Rightarrow> string" where
  "createToken lib secret payload =
     (let payloadB64 = base64urlEncode (utf8_encode (JSON_stringify lib payload));
          sig = signToken lib secret payloadB64
      in payloadB64 @ ''.'' @ sig)"

definition timingSafeEqual :: "byte list \<Rightarrow> byte list \<Rightarrow> js_error + bool" where
  "timingSafeEqual a b = (if length a \<noteq> length b then Inl RangeError else Inr (a = b))"

definition js_gt :: "jslib \<Rightarrow> int \<Rightarrow> json \<Rightarrow> bool" where
  "js_gt lib n v =
     (case v of
        JNum m \<Rightarrow> n > m
      | JBool b \<Rightarrow> n > (if b then 1 else 0)
      | JNull \<Rightarrow> n > 0
      | _ \<Rightarrow> gt_coerced lib n v)"

text \<open>The body of the \<^verbatim>\<open>try\<close> block of \<^verbatim>\<open>verifyToken\<close>: parsing may throw
  SyntaxError, and reading \<^verbatim>\<open>payload.exp\<close> of null throws TypeError.\<close>

definition verifyToken_try :: "jslib \<Rightarrow> int \<Rightarrow> string \<Rightarrow> js_error + json option" where
  "verifyToken_try lib now payloadB64 =
     (case JSON_parse lib (utf8_decode (base64urlDecodeToBuffer payloadB64)) of
        None \<Rightarrow> Inl SyntaxError
      | Some payload \<Rightarrow>
          if payload = JNull then Inl TypeError
          else if (case js_get payload ''exp'' of None \<Rightarrow> False
                   | Some exp \<Rightarrow> truthy exp \<and> js_gt lib now exp)
            then Inr None
          else if \<not> truthy_opt (js_get payload ''u'') then Inr None
          else Inr (Some payload))"

definition verifyToken :: "jslib \<Rightarrow> int \<Rightarrow> string \<Rightarrow> string \<Rightarrow> js_error + json option" where
  "verifyToken lib now secret token =
     (if token = [] then Inr None
      else
        let parts = split_on CHR ''.'' token in
        if length parts \<noteq> 2 then Inr None
        else
          let payloadB64 = parts ! 0;
              sig = parts ! 1;
              expected = signToken lib secret payloadB64;
              a = utf8_encode sig;
              b = utf8_encode expected
          in if length a \<noteq> length b then Inr None
             else case timingSafeEqual a b of
                    Inl e \<Rightarrow> Inl e
                  | Inr same \<Rightarrow>
                      if \<not> same then Inr None
                      else case verifyToken_try lib now payloadB64 of
                             Inl e \<Rightarrow> Inr None
                           | Inr r \<Rightarrow> Inr r)"

text \<open>An instance of the library for the examples: HMAC-SHA256 under the key
  \<^verbatim>\<open>s3cret\<close> and the JSON codec, each at the two payloads used below.\<close>

definition payload_bob_epoch :: json where
  "payload_bob_epoch = JObj [(''u'', JStr ''bob''), (''a'', JBool False), (''exp'', JNum 0)]"

definition lib_example :: jslib where
  \<open>lib_example =
     \<lparr>hmac_sha256 = (\<lambda>key msg.
        if key = ''s3cret'' \<and> msg = ''eyJ1IjoiYm9iIiwiYSI6ZmFsc2UsImV4cCI6MH0''
        then [92, 241, 42, 228, 81, 101, 169, 22, 32, 8, 203, 219, 3, 196, 64, 176,
              150, 181, 18, 140, 5, 255, 63, 7, 170, 230, 195, 246, 232, 218, 172, 15]
        else if key = ''s3cret'' \<and> msg = ''eyJ1IjoiYWxpY2UiLCJhIjpmYWxzZSwiZXhwIjoxNzAwMDAwMDAwMDAwfQ''
        then [197, 126, 204, 138, 185, 173, 43, 57, 242, 188, 116, 205, 54, 10, 196, 220,
              217, 122, 163, 253, 105, 213, 33, 82, 39, 22, 229, 6, 143, 88, 177, 230]
        else []),
      JSON_parse = (\<lambda>text.
        if text = ''{"u":"bob","a":false,"exp":0}'' then Some payload_bob_epoch
        else if text = ''{"u":"alice","a":false,"exp":1700000000000}'' then Some auth_alice
        else None),
      JSON_stringify = (\<lambda>v.
        if v = payload_bob_epoch then ''{"u":"bob","a":false,"exp":0}''
        else if v = auth_alice then ''{"u":"alice","a":false,"exp":1700000000000}''
        else []),
      gt_coerced = (\<lambda>n v. False)\<rparr>\<close>


definition b64_payload_bob :: string where
  "b64_payload_bob = ''eyJ1IjoiYm9iIiwiYSI6ZmFsc2UsImV4cCI6MH0''"

definition b64_payload_alice :: string where
  "b64_payload_alice = ''eyJ1IjoiYWxpY2UiLCJhIjpmYWxzZSwiZXhwIjoxNzAwMDAwMDAwMDAwfQ''"


section \<open>Favorite materializer and POST /api/favorites/add\<close>












text \<open>What requesting a URL yields: no response (the URL is invalid or the connection
  fails), or a response with its status, its Location header, its Content-Type header
  (empty when absent) and its body.\<close>

datatype net_response = NoResponse | Response nat "string option" string "byte list"


text \<open>What a favorite save takes from outside: the users directory, the clock, the stem
  \<^verbatim>\<open>${Date.now()}_${crypto.randomBytes(6).toString('hex')}\<close> of the n-th file name it
  generates, the network with the resolution of a Location header against the requested
  URL, \<^verbatim>\<open>decodeURIComponent\<close> (None when it throws), \<^verbatim>\<open>path.extname\<close>, and the files
  that exist when the request starts.\<close>

record world =
  USERS_ROOT :: string
  now_ms :: int
  stems :: "nat \<Rightarrow> string"
  request :: "string \<Rightarrow> net_response"
  resolveUrl :: "string \<Rightarrow> string \<Rightarrow> string"
  decodeURIComponent :: "string \<Rightarrow> string option"
  extname :: "string \<Rightarrow> string"
  disk :: "string \<Rightarrow> byte list option"




record mstate =
  dataUrlMap :: "(string \<times> string) list"
  remoteUrlMap :: "(string \<times> string) list"
  names_made :: nat
  files :: "stored_file list"










































section \<open>Properties of the quota accountant\<close>

lemma recomputeUsage_used:
  "uploadsBytes (fst (recomputeUsage st)) + generatedBytes (fst (recomputeUsage st)) = diskUsed st"
  by (simp add: recomputeUsage_def diskUsed_def Let_def)







lemma nodeBytes_nonneg: "0 \<le> nodeBytes n" and entriesBytes_nonneg: "0 \<le> entriesBytes es"
  by (induction n and es rule: nodeBytes_entriesBytes.induct) auto















section \<open>Properties of the favorites store\<close>







section \<open>Properties of the /files/ route\<close>

lemma split_acc_no_sep: "c \<notin> set s \<Longrightarrow> split_acc c acc s = [rev acc @ s]"
  by (induction s arbitrary: acc) auto

lemma split_acc_sep: "c \<notin> set s \<Longrightarrow> split_acc c acc (s @ c # rest) = (rev acc @ s) # split_acc c [] rest"
  by (induction s arbitrary: acc) auto

lemma split_acc_concat:
  "c \<notin> set s \<Longrightarrow> \<forall>t \<in> set ss. c \<notin> set t \<Longrightarrow>
     split_acc c acc (s @ concat (map (\<lambda>t. c # t) ss)) = (rev acc @ s) # ss"
proof (induction ss arbitrary: s acc)
  case Nil
  then show ?case by (simp add: split_acc_no_sep)
next
  case (Cons t ss)
  have "split_acc c acc (s @ c # (t @ concat (map (\<lambda>t. c # t) ss)))
        = (rev acc @ s) # split_acc c [] (t @ concat (map (\<lambda>t. c # t) ss))"
    using Cons.prems(1) by (rule split_acc_sep)
  also have "split_acc c [] (t @ concat (map (\<lambda>t. c # t) ss)) = t # ss"
    using Cons.IH [of t "[]"] Cons.prems(2) by simp
  finally show ?case by simp
qed

lemma split_on_abs_path:
  "\<forall>t \<in> set ss. CHR ''/'' \<notin> set t \<Longrightarrow> split_on CHR ''/'' (abs_path ss) = [] # ss"
  using split_acc_concat [of "CHR ''/''" "[]" ss "[]"]
  by (simp add: split_on_def abs_path_def)

lemma normalizeString_plain:
  "\<forall>t \<in> set ss. plain_segment t \<Longrightarrow>
     normalizeString allow res (ss @ ts) = normalizeString allow (rev ss @ res) ts"
  by (induction ss arbitrary: res) (auto simp: plain_segment_def)

lemma intercalate_concat: "segs \<noteq> [] \<Longrightarrow> c # intercalate [c] segs = concat (map (\<lambda>s. c # s) segs)"
  by (induction "[c]" segs rule: intercalate.induct) auto

lemma intercalate_abs_path: "segs \<noteq> [] \<Longrightarrow> CHR ''/'' # intercalate ''/'' segs = abs_path segs"
  by (simp add: intercalate_concat abs_path_def)

lemma intercalate_nonempty: "x \<noteq> [] \<Longrightarrow> intercalate sep (x # xs) \<noteq> []"
  by (cases xs) auto

lemma abs_path_append: "abs_path (xs @ ys) = abs_path xs @ abs_path ys"
  by (simp add: abs_path_def)

lemma abs_path_nonempty: "segs \<noteq> [] \<Longrightarrow> abs_path segs \<noteq> []"
  by (cases segs) (auto simp: abs_path_def)

lemma hd_abs_path: "segs \<noteq> [] \<Longrightarrow> hd (abs_path segs) = CHR ''/''"
  by (cases segs) (auto simp: abs_path_def)

lemma last_abs_path:
  "segs \<noteq> [] \<Longrightarrow> last segs \<noteq> [] \<Longrightarrow> CHR ''/'' \<notin> set (last segs) \<Longrightarrow> last (abs_path segs) \<noteq> CHR ''/''"
proof (induction segs)
  case Nil
  then show ?case by simp
next
  case (Cons s segs)
  show ?case
  proof (cases "segs = []")
    case True
    from Cons.prems True have s: "s \<noteq> []" "CHR ''/'' \<notin> set s" by simp_all
    then have "last s \<in> set s" by simp
    with s have "last s \<noteq> CHR ''/''" by metis
    with s True show ?thesis by (simp add: abs_path_def)
  next
    case False
    with Cons have "last (abs_path segs) \<noteq> CHR ''/''" by simp
    moreover have "abs_path (s # segs) = (CHR ''/'' # s) @ abs_path segs" by (simp add: abs_path_def)
    ultimately show ?thesis using False abs_path_nonempty [of segs] by simp
  qed
qed

text \<open>Normalising an absolute path whose segments may hold dots.\<close>

lemma path_normalize_abs:
  assumes "segs \<noteq> []" and "\<forall>t \<in> set segs. CHR ''/'' \<notin> set t" and "last segs \<noteq> []"
    and "normalizeString False [] segs = out" and "out \<noteq> []" and "hd out \<noteq> []"
  shows "path_normalize (abs_path segs) = abs_path out"
proof -
  have ne: "abs_path segs \<noteq> []" using assms(1) by (rule abs_path_nonempty)
  have h: "hd (abs_path segs) = CHR ''/''" using assms(1) by (rule hd_abs_path)
  have l: "last (abs_path segs) \<noteq> CHR ''/''"
    using assms(1,2,3) by (intro last_abs_path) auto
  have sp: "split_on CHR ''/'' (abs_path segs) = [] # segs"
    using assms(2) by (rule split_on_abs_path)
  have body: "intercalate ''/'' out \<noteq> []"
    using assms(5,6) intercalate_nonempty [of "hd out" "''/''" "tl out"] by simp
  show ?thesis
    using ne h l sp body assms(4) intercalate_abs_path [OF assms(5)]
    by (simp add: path_normalize_def Let_def)
qed

lemma path_join_two:
  assumes "a \<noteq> []" and "b \<noteq> []"
  shows "path_join [a, b] = path_normalize (a @ CHR ''/'' # b)"
  using assms by (simp add: path_join_def Let_def)

lemma path_join_root_user:
  assumes "rs \<noteq> []" and "\<forall>t \<in> set rs. plain_segment t" and "plain_segment u"
  shows "path_join [abs_path rs, u] = abs_path (rs @ [u])"
proof -
  have plain: "\<forall>t \<in> set (rs @ [u]). plain_segment t" using assms by simp
  have n: "normalizeString False [] (rs @ [u]) = rs @ [u]"
    using normalizeString_plain [OF plain, of False "[]" "[]"] by simp
  have "path_normalize (abs_path (rs @ [u])) = abs_path (rs @ [u])"
    using plain assms(1) n
    by (intro path_normalize_abs) (auto simp: plain_segment_def hd_append)
  moreover have "abs_path rs @ CHR ''/'' # u = abs_path (rs @ [u])"
    by (simp add: abs_path_def)
  moreover have "u \<noteq> []" using assms(3) by (simp add: plain_segment_def)
  ultimately show ?thesis
    using path_join_two [of "abs_path rs" u] abs_path_nonempty [OF assms(1)] by simp
qed

lemma path_join_escape:
  assumes "rs \<noteq> []" and "\<forall>t \<in> set rs. plain_segment t" and "plain_segment u"
    and "\<forall>t \<in> set tl_segs. plain_segment t" and "tl_segs \<noteq> []"
  shows "path_join [abs_path (rs @ [u]), intercalate ''/'' (''..'' # tl_segs)] = abs_path (rs @ tl_segs)"
proof -
  have rel: "CHR ''/'' # intercalate ''/'' (''..'' # tl_segs) = abs_path (''..'' # tl_segs)"
    by (rule intercalate_abs_path) simp
  have relne: "intercalate ''/'' (''..'' # tl_segs) \<noteq> []"
    using assms(5) by (cases tl_segs) auto
  have joined: "abs_path (rs @ [u]) @ CHR ''/'' # intercalate ''/'' (''..'' # tl_segs)
      = abs_path ((rs @ [u]) @ ''..'' # tl_segs)"
    using rel by (simp add: abs_path_def)
  have plain1: "\<forall>t \<in> set (rs @ [u]). plain_segment t" using assms by simp
  have plain2: "\<forall>t \<in> set (rs @ tl_segs). plain_segment t" using assms by auto
  have "normalizeString False [] ((rs @ [u]) @ ''..'' # tl_segs)
      = normalizeString False (rev (rs @ [u]) @ []) (''..'' # tl_segs)"
    using plain1 by (rule normalizeString_plain)
  also have "\<dots> = normalizeString False (rev rs) tl_segs"
    using assms(3) by (simp add: plain_segment_def)
  also have "\<dots> = normalizeString False (rev rs) (tl_segs @ [])" by simp
  also have "\<dots> = normalizeString False (rev tl_segs @ rev rs) []"
    using assms(4) by (rule normalizeString_plain)
  also have "\<dots> = rs @ tl_segs" by simp
  finally have n: "normalizeString False [] ((rs @ [u]) @ ''..'' # tl_segs) = rs @ tl_segs" .
  have "path_normalize (abs_path ((rs @ [u]) @ ''..'' # tl_segs)) = abs_path (rs @ tl_segs)"
    using n assms plain2
    by (intro path_normalize_abs) (auto simp: plain_segment_def hd_append)
  then show ?thesis
    using path_join_two [OF abs_path_nonempty relne, of "rs @ [u]"] joined by simp
qed


lemma not_startsWith_sibling:
  assumes "\<not> prefix u m" and "CHR ''/'' \<notin> set u" and "r = [] \<or> hd r = CHR ''/''"
  shows "\<not> startsWith (a @ CHR ''/'' # m @ r) (a @ CHR ''/'' # u)"
proof
  assume "startsWith (a @ CHR ''/'' # m @ r) (a @ CHR ''/'' # u)"
  then have eq: "take (length u) (m @ r) = u"
    by (simp add: startsWith_def)
  show False
  proof (cases "length u \<le> length m")
    case True
    with eq have "take (length u) m = u" by simp
    then have "prefix u m" by (metis take_is_prefix)
    with assms(1) show False by simp
  next
    case False
    then have u: "u = m @ take (length u - length m) r" using eq by simp
    show False
    proof (cases r)
      case Nil
      with u False show False by simp
    next
      case (Cons c r')
      with assms(3) have "c = CHR ''/''" by simp
      moreover from False obtain k where "length u - length m = Suc k"
        by (cases "length u - length m") auto
      ultimately have "u = m @ CHR ''/'' # take k r'" using u Cons by simp
      then have "CHR ''/'' \<in> set u" by (metis in_set_conv_decomp)
      with assms(2) show False by simp
    qed
  qed
qed

lemma abs_path_hd: "r = abs_path segs \<Longrightarrow> r = [] \<or> hd r = CHR ''/''"
  by (cases segs) (auto simp: abs_path_def)

text \<open>
  Claim C6, as the code has it. The route checks the token, then the owner, then the
  path. For a decoded pathname \<^verbatim>\<open>/files/<u>/../<target>\<close> whose target leaves the
  root of \<open>u\<close> (its first segment does not start with \<open>u\<close>), as
  \<^verbatim>\<open>/files/alice/../bob/secret.png\<close> does, the answer is 401 when there is no valid
  token, 403 when the token is neither of \<open>u\<close> nor of an admin, and 400 for
  \<open>u\<close> and for an admin. \<open>USERS_ROOT\<close> is any absolute normalised path.
\<close>

theorem files_route_traversal:
  assumes "rs \<noteq> []" and "\<forall>t \<in> set rs. plain_segment t"
    and "plain_segment u" and "\<forall>t \<in> set target. plain_segment t" and "target \<noteq> []"
    and "\<not> prefix u (hd target)"
    and "path_parts pathname = ''files'' # u # ''..'' # target"
  shows "files_route (abs_path rs) auth pathname =
     (case auth of
        None \<Rightarrow> Text 401 ''Unauthorized''
      | Some a \<Rightarrow> if js_get a ''u'' = Some (JStr u) \<or> js_get a ''a'' = Some (JBool True)
                  then Text 400 ''Bad path'' else Text 403 ''Forbidden'')"
proof -
  have root: "path_join [abs_path rs, u] = abs_path (rs @ [u])"
    using assms(1,2,3) by (rule path_join_root_user)
  have fp: "path_join [abs_path (rs @ [u]), intercalate ''/'' (''..'' # target)] = abs_path (rs @ target)"
    using assms(1,2,3,4,5) by (rule path_join_escape)
  obtain m ms where t: "target = m # ms" using assms(5) by (cases target) auto
  have "\<not> startsWith (abs_path rs @ CHR ''/'' # m @ abs_path ms) (abs_path rs @ CHR ''/'' # u)"
    using assms(3,6) t abs_path_hd [of "abs_path ms" ms]
    by (intro not_startsWith_sibling) (auto simp: plain_segment_def)
  then have bad: "\<not> startsWith (abs_path (rs @ target)) (abs_path (rs @ [u]))"
    using t by (simp add: abs_path_def)
  show ?thesis
    using assms(7) root fp bad
    by (simp add: files_route_def Let_def nth_opt_def ensureUserOwnsPath_def split: option.splits)
qed

lemma parts_traversal:
  "path_parts ''/files/alice/../bob/secret.png'' = [''files'', ''alice'', ''..'', ''bob'', ''secret.png'']"
  by (simp add: path_parts_def split_on_def)

theorem files_route_traversal_witness:
  "[''srv'', ''banana'', ''data'', ''users''] \<noteq> []
   \<and> list_all plain_segment [''srv'', ''banana'', ''data'', ''users'']
   \<and> plain_segment ''alice'' \<and> list_all plain_segment [''bob'', ''secret.png'']
   \<and> \<not> prefix ''alice'' (hd [''bob'', ''secret.png''])
   \<and> path_parts ''/files/alice/../bob/secret.png'' = ''files'' # ''alice'' # ''..'' # [''bob'', ''secret.png'']
   \<and> js_get auth_alice ''u'' = Some (JStr ''alice'')
   \<and> files_route USERS_ROOT_example (Some auth_alice) ''/files/alice/../bob/secret.png'' = Text 400 ''Bad path''"
proof -
  have r: "abs_path [''srv'', ''banana'', ''data'', ''users''] = USERS_ROOT_example"
    by (simp add: abs_path_def USERS_ROOT_example_def)
  have p: "\<forall>t \<in> set [''srv'', ''banana'', ''data'', ''users'']. plain_segment t"
    by (simp add: plain_segment_def)
  have q: "\<forall>t \<in> set [''bob'', ''secret.png'']. plain_segment t"
    by (simp add: plain_segment_def)
  have a: "plain_segment ''alice''" by (simp add: plain_segment_def)
  have n: "\<not> prefix ''alice'' (hd [''bob'', ''secret.png''])" by simp
  have pp: "path_parts ''/files/alice/../bob/secret.png'' = ''files'' # ''alice'' # ''..'' # [''bob'', ''secret.png'']"
    by (simp add: parts_traversal)
  have u: "js_get auth_alice ''u'' = Some (JStr ''alice'')" by (simp add: auth_alice_def)
  show ?thesis
    using files_route_traversal [OF _ p a q _ n pp, of "Some auth_alice"] r p q a pp u
    by simp
qed

text \<open>
  Claim C6 as stated fails: for the decoded pathname \<^verbatim>\<open>/files/alice/../bob/secret.png\<close>
  the answer is 401 without a token and 403 for bob, who is no admin; 400 is not reached.
\<close>

theorem files_route_traversal_counterexample:
  "files_route USERS_ROOT_example None ''/files/alice/../bob/secret.png'' = Text 401 ''Unauthorized''
   \<and> files_route USERS_ROOT_example (Some auth_bob) ''/files/alice/../bob/secret.png'' = Text 403 ''Forbidden''"
  by (simp add: files_route_def parts_traversal nth_opt_def ensureUserOwnsPath_def auth_bob_def)

section \<open>Properties of the base64 codec\<close>

lemma distinct_alphabet: "distinct b64_alphabet"
  by (simp add: b64_alphabet_def)

lemma length_alphabet: "length b64_alphabet = 64"
  by (simp add: b64_alphabet_def)

lemma index_of_nth: "distinct xs \<Longrightarrow> n < length xs \<Longrightarrow> index_of (xs ! n) xs = Some n"
proof (induction xs arbitrary: n)
  case Nil
  then show ?case by simp
next
  case (Cons a xs)
  show ?case
  proof (cases n)
    case 0
    then show ?thesis by simp
  next
    case (Suc m)
    with Cons.prems have "xs ! m \<noteq> a" by (metis distinct.simps(2) length_Cons not_less_eq nth_mem less_Suc_eq_le Suc_less_eq)
    with Suc Cons show ?thesis by simp
  qed
qed

lemma special_not_in_alphabet:
  "CHR ''-'' \<notin> set b64_alphabet" "CHR ''_'' \<notin> set b64_alphabet" "CHR ''='' \<notin> set b64_alphabet"
  by (simp_all add: b64_alphabet_def)

lemma b64_char_in: "n < 64 \<Longrightarrow> b64_char n \<in> set b64_alphabet"
  by (simp add: b64_char_def length_alphabet)

lemma unbase64_b64_char:
  assumes "n < 64"
  shows "unbase64 (b64_char n) = Some n"
proof -
  have "b64_char n \<noteq> CHR ''-''" "b64_char n \<noteq> CHR ''_''"
    using b64_char_in [OF assms] special_not_in_alphabet by auto
  moreover have "index_of (b64_char n) b64_alphabet = Some n"
    using index_of_nth [OF distinct_alphabet, of n] assms by (simp add: b64_char_def length_alphabet)
  ultimately show ?thesis by (simp add: unbase64_def)
qed

lemma b64_char_not_pad: "n < 64 \<Longrightarrow> b64_char n \<noteq> CHR ''=''"
  using b64_char_in [of n] special_not_in_alphabet by auto


lemma byte_lt: "unat (x :: byte) < 256"
  using unsigned_less [of x, where 'a = nat] by simp

lemma sextets_lt_64: "\<forall>n \<in> set (encode_sextets buf). n < 64"
proof (induction buf rule: encode_sextets.induct)
  case (1 x y z rest)
  have "unat x < 256" "unat y < 256" "unat z < 256"
    using byte_lt [of x] byte_lt [of y] byte_lt [of z] by simp_all
  with 1 show ?case by auto
next
  case (2 x y)
  have "unat x < 256" "unat y < 256"
    using byte_lt [of x] byte_lt [of y] by simp_all
  then show ?case by auto
next
  case (3 x)
  have "unat x < 256" using byte_lt [of x] by simp
  then show ?case by auto
qed simp

lemma div16_byte: "(y::nat) < 256 \<Longrightarrow> y div 16 < 16" by simp
lemma div64_byte: "(z::nat) < 256 \<Longrightarrow> z div 64 < 4" by simp
lemma div_hi: "b < k \<Longrightarrow> (a * k + b) div k = (a::nat)" by simp
lemma mod_lo: "b < k \<Longrightarrow> (a * k + b) mod k = (b::nat)" by simp
lemma sextet_arith1: "(y::nat) < 256 \<Longrightarrow> x div 4 * 4 + (x mod 4 * 16 + y div 16) div 16 = x"
  using div_hi [of "y div 16" 16 "x mod 4"] div16_byte [of y] by simp
lemma sextet_arith2: "(y::nat) < 256 \<Longrightarrow> z < 256 \<Longrightarrow>
   (x mod 4 * 16 + y div 16) mod 16 * 16 + (y mod 16 * 4 + z div 64) div 4 = y"
  using mod_lo [of "y div 16" 16 "x mod 4"] div_hi [of "z div 64" 4 "y mod 16"] div16_byte [of y] div64_byte [of z] by simp
lemma sextet_arith3: "(z::nat) < 256 \<Longrightarrow> (y mod 16 * 4 + z div 64) mod 4 * 64 + z mod 64 = z"
  using mod_lo [of "z div 64" 4 "y mod 16"] div64_byte [of z] by simp
lemma sextet_arith4: "(y::nat) < 256 \<Longrightarrow> (x mod 4 * 16 + y div 16) mod 16 * 16 + (y mod 16 * 4) div 4 = y"
  using mod_lo [of "y div 16" 16 "x mod 4"] div16_byte [of y] by simp
lemma sextet_arith5: "x div 4 * 4 + (x mod 4 * 16) div 16 = (x::nat)"
  by simp

lemma decode_encode_sextets: "decode_sextets (encode_sextets buf) = buf"
proof (induction buf rule: encode_sextets.induct)
  case (1 x y z rest)
  have b: "unat x < 256" "unat y < 256" "unat z < 256"
    using byte_lt [of x] byte_lt [of y] byte_lt [of z] by simp_all
  show ?case
    using 1 b by (simp add: sextet_arith1 sextet_arith2 sextet_arith3)
next
  case (2 x y)
  have b: "unat x < 256" "unat y < 256"
    using byte_lt [of x] byte_lt [of y] by simp_all
  show ?case
    using b by (simp add: sextet_arith1 sextet_arith4)
next
  case (3 x)
  show ?case
    by (simp add: sextet_arith5)
qed simp

lemma map_filter_unbase64: "\<forall>n \<in> set ns. n < 64 \<Longrightarrow> List.map_filter unbase64 (map b64_char ns) = ns"
  by (induction ns) (simp_all add: List.map_filter_simps unbase64_b64_char)

lemma takeWhile_body:
  "\<forall>n \<in> set ns. n < 64 \<Longrightarrow>
     takeWhile (\<lambda>c. c \<noteq> CHR ''='') (map b64_char ns @ replicate k CHR ''='') = map b64_char ns"
  by (induction ns) (auto simp: b64_char_not_pad takeWhile_replicate)




section \<open>Properties of token auth\<close>

lemma utf8_encode_inj: "utf8_encode s = utf8_encode t \<Longrightarrow> s = t"
proof -
  have "\<And>c. char_of (unat (of_nat (of_char c) :: byte)) = c"
    by (simp add: unat_of_nat take_bit_eq_mod)
  then have "utf8_decode (utf8_encode s) = s" for s
    by (simp add: utf8_decode_def utf8_encode_def map_idI)
  then show "utf8_encode s = utf8_encode t \<Longrightarrow> s = t" by metis
qed

lemma verifyToken_never_throws: "verifyToken lib now secret token \<noteq> Inl e"
  by (auto simp: verifyToken_def timingSafeEqual_def Let_def split: sum.splits)

lemma verifyToken_parts:
  assumes "split_on CHR ''.'' token = [p, sg]"
  shows "verifyToken lib now secret token =
     (if sg \<noteq> signToken lib secret p then Inr None
      else case verifyToken_try lib now p of Inl e \<Rightarrow> Inr None | Inr r \<Rightarrow> Inr r)"
proof -
  have ne: "token \<noteq> []" using assms by (auto simp: split_on_def)
  have eq: "utf8_encode sg = utf8_encode (signToken lib secret p) \<longleftrightarrow> sg = signToken lib secret p"
    using utf8_encode_inj by auto
  have len: "length (utf8_encode sg) \<noteq> length (utf8_encode (signToken lib secret p))
      \<Longrightarrow> sg \<noteq> signToken lib secret p"
    by auto
  show ?thesis
    using ne assms eq len
    by (auto simp: verifyToken_def timingSafeEqual_def Let_def split: sum.splits)
qed


lemma filter_pad_encode: "filter (\<lambda>c. c \<noteq> CHR ''='') (b64_encode buf) = map b64_char (encode_sextets buf)"
proof -
  have "\<forall>c \<in> set (map b64_char (encode_sextets buf)). c \<noteq> CHR ''=''"
    using sextets_lt_64 [of buf] b64_char_not_pad by auto
  then have "filter (\<lambda>c. c \<noteq> CHR ''='') (map b64_char (encode_sextets buf)) = map b64_char (encode_sextets buf)"
    by (simp add: filter_id_conv)
  then show ?thesis by (simp add: b64_encode_def b64_padding_def)
qed

lemma base64urlEncode_chars:
  "c \<in> set (base64urlEncode buf) \<Longrightarrow> c \<in> set b64_alphabet \<or> c = CHR ''-'' \<or> c = CHR ''_''"
  using sextets_lt_64 [of buf] b64_char_in
  by (auto simp: base64urlEncode_def filter_pad_encode)

lemma base64urlEncode_no_dot: "CHR ''.'' \<notin> set (base64urlEncode buf)"
proof
  assume "CHR ''.'' \<in> set (base64urlEncode buf)"
  then have "CHR ''.'' \<in> set b64_alphabet" using base64urlEncode_chars by fastforce
  then show False by (simp add: b64_alphabet_def)
qed

lemma b64_char_not_url: "n < 64 \<Longrightarrow> b64_char n \<noteq> CHR ''-'' \<and> b64_char n \<noteq> CHR ''_''"
  using b64_char_in [of n] special_not_in_alphabet by auto

lemma base64url_roundtrip: "base64urlDecodeToBuffer (base64urlEncode buf) = buf"
proof -
  let ?ns = "encode_sextets buf"
  let ?unsafe = "\<lambda>c. if c = CHR ''-'' then CHR ''+'' else if c = CHR ''_'' then CHR ''/'' else c"
  let ?safe = "\<lambda>c. if c = CHR ''+'' then CHR ''-'' else if c = CHR ''/'' then CHR ''_'' else c"
  have lt: "\<forall>n \<in> set ?ns. n < 64" by (rule sextets_lt_64)
  have plain: "\<forall>c \<in> set (map b64_char ?ns). c \<noteq> CHR ''-'' \<and> c \<noteq> CHR ''_''"
    using lt b64_char_not_url by auto
  have "map ?unsafe (map ?safe cs) = cs" if "\<forall>c \<in> set cs. c \<noteq> CHR ''-'' \<and> c \<noteq> CHR ''_''" for cs
    using that by (induction cs) auto
  from this [OF plain] have undo: "map ?unsafe (map ?safe (map b64_char ?ns)) = map b64_char ?ns" .
  have dec: "\<And>k. b64_decode (map b64_char ?ns @ replicate k CHR ''='') = buf"
    using lt by (simp add: b64_decode_def takeWhile_body map_filter_unbase64 decode_encode_sextets)
  have nil: "b64_decode (map b64_char ?ns) = buf"
    using dec [of 0] by simp
  show ?thesis
    unfolding base64urlDecodeToBuffer_def base64urlEncode_def filter_pad_encode Let_def undo
    using dec nil by simp
qed

lemma split_on_two:
  "c \<notin> set p \<Longrightarrow> c \<notin> set sg \<Longrightarrow> split_on c (p @ c # sg) = [p, sg]"
  by (simp add: split_on_def split_acc_sep split_acc_no_sep)

lemma utf8_roundtrip: "utf8_decode (utf8_encode s) = s"
proof -
  have "\<And>c. char_of (unat (of_nat (of_char c) :: byte)) = c"
    by (simp add: unat_of_nat take_bit_eq_mod)
  then show ?thesis by (simp add: utf8_decode_def utf8_encode_def map_idI)
qed

lemma verifyToken_accepts_fresh:
  assumes "JSON_parse lib (JSON_stringify lib payload) = Some payload"
    and "truthy_opt (js_get payload ''u'')"
    and "js_get payload ''exp'' = Some (JNum ex)" and "now \<le> ex"
  shows "verifyToken lib now secret (createToken lib secret payload) = Inr (Some payload)"
proof -
  let ?p = "base64urlEncode (utf8_encode (JSON_stringify lib payload))"
  have sp: "split_on CHR ''.'' (createToken lib secret payload) = [?p, signToken lib secret ?p]"
    using split_on_two [of "CHR ''.''" ?p "signToken lib secret ?p"] base64urlEncode_no_dot
    by (simp add: createToken_def signToken_def Let_def)
  have nn: "payload \<noteq> JNull" using assms(2) by (auto simp: truthy_opt_def)
  have "verifyToken_try lib now ?p = Inr (Some payload)"
    using assms nn by (simp add: verifyToken_try_def base64url_roundtrip utf8_roundtrip js_gt_def)
  then show ?thesis by (simp add: verifyToken_parts [OF sp])
qed

text \<open>
  Claim C7, as the code has it. \<open>verifyToken\<close> never throws. It returns null for
  the empty (missing) token; for a token that does not split at dots into exactly two
  parts; for a signature other than the expected one; for a payload that does not parse;
  for a payload without a truthy \<^verbatim>\<open>u\<close>; and for a payload whose \<^verbatim>\<open>exp\<close> is a
  number other than zero that lies in the past. So a token with such an \<^verbatim>\<open>exp\<close> is
  refused although its signature is the right one, and a payload \<open>p'\<close> put in front
  of the signature of another payload \<open>p\<close> is refused whenever the two signatures
  differ.
\<close>

theorem verifyToken_rejects:
  "verifyToken lib now secret token \<noteq> Inl e
   \<and> verifyToken lib now secret [] = Inr None
   \<and> (length (split_on CHR ''.'' token) \<noteq> 2 \<longrightarrow> verifyToken lib now secret token = Inr None)
   \<and> (split_on CHR ''.'' token = [p, sg] \<longrightarrow>
        (sg \<noteq> signToken lib secret p \<longrightarrow> verifyToken lib now secret token = Inr None)
      \<and> (JSON_parse lib (utf8_decode (base64urlDecodeToBuffer p)) = None
           \<longrightarrow> verifyToken lib now secret token = Inr None)
      \<and> (JSON_parse lib (utf8_decode (base64urlDecodeToBuffer p)) = Some payload \<longrightarrow>
             (\<not> truthy_opt (js_get payload ''u'') \<longrightarrow> verifyToken lib now secret token = Inr None)
           \<and> (js_get payload ''exp'' = Some (JNum ex) \<and> ex \<noteq> 0 \<and> ex < now
                 \<longrightarrow> verifyToken lib now secret token = Inr None)))
   \<and> (CHR ''.'' \<notin> set p
        \<and> JSON_parse lib (utf8_decode (base64urlDecodeToBuffer p)) = Some payload
        \<and> js_get payload ''exp'' = Some (JNum ex) \<and> ex \<noteq> 0 \<and> ex < now
        \<longrightarrow> verifyToken lib now secret (p @ ''.'' @ signToken lib secret p) = Inr None)
   \<and> (CHR ''.'' \<notin> set p' \<and> signToken lib secret p' \<noteq> signToken lib secret p
        \<longrightarrow> verifyToken lib now secret (p' @ ''.'' @ signToken lib secret p) = Inr None)"
proof -
  have try_none: "(case verifyToken_try lib now q of Inl e \<Rightarrow> Inr None | Inr r \<Rightarrow> Inr r) = Inr None"
    if "JSON_parse lib (utf8_decode (base64urlDecodeToBuffer q)) = Some payload"
      and "\<not> truthy_opt (js_get payload ''u'')
           \<or> js_get payload ''exp'' = Some (JNum ex) \<and> ex \<noteq> 0 \<and> ex < now" for q
    using that by (auto simp: verifyToken_try_def js_gt_def)
  have try_syntax: "verifyToken_try lib now q = Inl SyntaxError"
    if "JSON_parse lib (utf8_decode (base64urlDecodeToBuffer q)) = None" for q
    using that by (simp add: verifyToken_try_def)
  have parts: "split_on CHR ''.'' token = [p, sg] \<Longrightarrow>
        (sg \<noteq> signToken lib secret p \<longrightarrow> verifyToken lib now secret token = Inr None)
      \<and> (JSON_parse lib (utf8_decode (base64urlDecodeToBuffer p)) = None
           \<longrightarrow> verifyToken lib now secret token = Inr None)
      \<and> (JSON_parse lib (utf8_decode (base64urlDecodeToBuffer p)) = Some payload \<longrightarrow>
             (\<not> truthy_opt (js_get payload ''u'') \<longrightarrow> verifyToken lib now secret token = Inr None)
           \<and> (js_get payload ''exp'' = Some (JNum ex) \<and> ex \<noteq> 0 \<and> ex < now
                 \<longrightarrow> verifyToken lib now secret token = Inr None))"
    using try_none [of p] try_syntax [of p] by (auto simp: verifyToken_parts)
  have sp: "CHR ''.'' \<notin> set q \<Longrightarrow>
      split_on CHR ''.'' (q @ ''.'' @ signToken lib secret p) = [q, signToken lib secret p]" for q
    using split_on_two [of "CHR ''.''" q "signToken lib secret p"] base64urlEncode_no_dot
    by (simp add: signToken_def)
  have expired: "CHR ''.'' \<notin> set p
        \<and> JSON_parse lib (utf8_decode (base64urlDecodeToBuffer p)) = Some payload
        \<and> js_get payload ''exp'' = Some (JNum ex) \<and> ex \<noteq> 0 \<and> ex < now
        \<longrightarrow> verifyToken lib now secret (p @ ''.'' @ signToken lib secret p) = Inr None"
    using try_none [of p] sp [of p] by (auto simp: verifyToken_parts)
  have tampered: "CHR ''.'' \<notin> set p' \<and> signToken lib secret p' \<noteq> signToken lib secret p
        \<longrightarrow> verifyToken lib now secret (p' @ ''.'' @ signToken lib secret p) = Inr None"
    using sp [of p'] by (auto simp: verifyToken_parts)
  have short: "length (split_on CHR ''.'' token) \<noteq> 2 \<longrightarrow> verifyToken lib now secret token = Inr None"
    by (simp add: verifyToken_def Let_def)
  have empty: "verifyToken lib now secret [] = Inr None"
    by (simp add: verifyToken_def)
  show ?thesis
    using verifyToken_never_throws [of lib now secret token e] empty short parts expired tampered
    by blast
qed


lemma decode_payload_bob:
  \<open>utf8_decode (base64urlDecodeToBuffer b64_payload_bob) = ''{"u":"bob","a":false,"exp":0}''\<close>
  by (simp add: b64_payload_bob_def base64urlDecodeToBuffer_def b64_decode_def utf8_decode_def
      unbase64_def b64_alphabet_def List.map_filter_simps Let_def char_of_eq_iff)

lemma decode_payload_alice:
  \<open>utf8_decode (base64urlDecodeToBuffer b64_payload_alice) = ''{"u":"alice","a":false,"exp":1700000000000}''\<close>
  by (simp add: b64_payload_alice_def base64urlDecodeToBuffer_def b64_decode_def utf8_decode_def
      unbase64_def b64_alphabet_def List.map_filter_simps Let_def char_of_eq_iff)

lemma sign_payload_bob:
  "signToken lib_example ''s3cret'' b64_payload_bob = ''XPEq5FFlqRYgCMvbA8RAsJa1EowF_z8HqubD9ujarA8''"
  by (simp add: signToken_def lib_example_def b64_payload_bob_def base64urlEncode_def b64_encode_def
      b64_padding_def b64_char_def b64_alphabet_def)

lemma sign_payload_alice:
  "signToken lib_example ''s3cret'' b64_payload_alice = ''xX7MirmtKznyvHTNNgrE3Nl6o_1p1SFSJxblBo9YseY''"
  by (simp add: signToken_def lib_example_def b64_payload_alice_def b64_payload_bob_def base64urlEncode_def b64_encode_def
      b64_padding_def b64_char_def b64_alphabet_def)


lemma parse_payload_alice:
  "JSON_parse lib_example (utf8_decode (base64urlDecodeToBuffer b64_payload_alice)) = Some auth_alice"
  by (simp add: decode_payload_alice lib_example_def)

lemma parse_payload_bob:
  "JSON_parse lib_example (utf8_decode (base64urlDecodeToBuffer b64_payload_bob)) = Some payload_bob_epoch"
  by (simp add: decode_payload_bob lib_example_def)

lemma no_dot_payloads: "CHR ''.'' \<notin> set b64_payload_alice" "CHR ''.'' \<notin> set b64_payload_bob"
  by (simp_all add: b64_payload_alice_def b64_payload_bob_def)

theorem verifyToken_rejects_witness:
  "CHR ''.'' \<notin> set b64_payload_alice
   \<and> JSON_parse lib_example (utf8_decode (base64urlDecodeToBuffer b64_payload_alice)) = Some auth_alice
   \<and> js_get auth_alice ''exp'' = Some (JNum 1700000000000)
   \<and> (1700000000000 :: int) \<noteq> 0 \<and> (1700000000000 :: int) < 1800000000000
   \<and> verifyToken lib_example 1800000000000 ''s3cret''
         (b64_payload_alice @ ''.'' @ signToken lib_example ''s3cret'' b64_payload_alice) = Inr None
   \<and> CHR ''.'' \<notin> set b64_payload_bob
   \<and> signToken lib_example ''s3cret'' b64_payload_bob \<noteq> signToken lib_example ''s3cret'' b64_payload_alice
   \<and> verifyToken lib_example 1800000000000 ''s3cret''
         (b64_payload_bob @ ''.'' @ signToken lib_example ''s3cret'' b64_payload_alice) = Inr None"
proof -
  have ex: "js_get auth_alice ''exp'' = Some (JNum 1700000000000)" by (simp add: auth_alice_def)
  have ne: "signToken lib_example ''s3cret'' b64_payload_bob \<noteq> signToken lib_example ''s3cret'' b64_payload_alice"
    by (simp add: sign_payload_bob sign_payload_alice)
  show ?thesis
    using verifyToken_rejects [of lib_example 1800000000000 "''s3cret''" "[]" TypeError
        b64_payload_alice "[]" auth_alice 1700000000000 b64_payload_bob]
      no_dot_payloads parse_payload_alice ex ne
    by simp
qed

lemma verifyToken_fresh_example:
  "verifyToken lib_example 1600000000000 ''s3cret'' (createToken lib_example ''s3cret'' auth_alice)
     = Inr (Some auth_alice)"
proof -
  have "auth_alice \<noteq> payload_bob_epoch" by (simp add: auth_alice_def payload_bob_epoch_def)
  then have \<open>JSON_stringify lib_example auth_alice = ''{"u":"alice","a":false,"exp":1700000000000}''\<close>
    by (simp add: lib_example_def)
  then have rt: "JSON_parse lib_example (JSON_stringify lib_example auth_alice) = Some auth_alice"
    by (simp add: lib_example_def)
  show ?thesis
    by (rule verifyToken_accepts_fresh [OF rt, where ex = 1700000000000])
      (simp_all add: auth_alice_def truthy_opt_def)
qed

text \<open>
  Claim C7 as stated fails for \<^verbatim>\<open>exp: 0\<close>: the guard \<^verbatim>\<open>payload.exp && ...\<close> takes
  zero for an absent expiry, so the token of \<^verbatim>\<open>{"u":"bob","a":false,"exp":0}\<close> signed
  under \<^verbatim>\<open>s3cret\<close> is accepted long after the epoch.
\<close>

theorem verifyToken_epoch_exp_counterexample:
  "js_get payload_bob_epoch ''exp'' = Some (JNum 0) \<and> (0 :: int) < 1800000000000
   \<and> verifyToken lib_example 1800000000000 ''s3cret''
        ''eyJ1IjoiYm9iIiwiYSI6ZmFsc2UsImV4cCI6MH0.XPEq5FFlqRYgCMvbA8RAsJa1EowF_z8HqubD9ujarA8''
      = Inr (Some payload_bob_epoch)"
proof -
  have tok: "''eyJ1IjoiYm9iIiwiYSI6ZmFsc2UsImV4cCI6MH0.XPEq5FFlqRYgCMvbA8RAsJa1EowF_z8HqubD9ujarA8''
      = b64_payload_bob @ ''.'' @ signToken lib_example ''s3cret'' b64_payload_bob"
    unfolding sign_payload_bob by (simp add: b64_payload_bob_def)
  have sp: "split_on CHR ''.'' (b64_payload_bob @ ''.'' @ signToken lib_example ''s3cret'' b64_payload_bob)
      = [b64_payload_bob, signToken lib_example ''s3cret'' b64_payload_bob]"
    using split_on_two [of "CHR ''.''" b64_payload_bob "signToken lib_example ''s3cret'' b64_payload_bob"]
      no_dot_payloads base64urlEncode_no_dot
    by (simp add: signToken_def)
  have t: "verifyToken_try lib_example 1800000000000 b64_payload_bob = Inr (Some payload_bob_epoch)"
    by (simp add: verifyToken_try_def parse_payload_bob payload_bob_epoch_def truthy_opt_def)
  have v: "verifyToken lib_example 1800000000000 ''s3cret''
        (b64_payload_bob @ ''.'' @ signToken lib_example ''s3cret'' b64_payload_bob)
      = Inr (Some payload_bob_epoch)"
    using verifyToken_parts [OF sp, of lib_example 1800000000000 "''s3cret''"] t by simp
  have e: "js_get payload_bob_epoch ''exp'' = Some (JNum 0)"
    by (simp add: payload_bob_epoch_def)
  show ?thesis
    unfolding tok using v e by simp
qed

section \<open>Properties of the favorite materializer\<close>



































subsection \<open>Remote URLs whose fetch fails\<close>
















subsection \<open>Favorite saves and the quota\<close>













end
